theory Spec2Isabelle
  imports Main
begin

section \<open>Bad passwords and the NIST guidelines: the notebook's rules\<close>

text \<open>
  The notebook loads a table \<open>users\<close> with one row per account (columns
  \<open>user_name\<close> and \<open>password\<close>), two word lists (\<open>common_passwords\<close> and
  \<open>words\<close>), and then assigns one new column per rule, cell after cell:
  \<open>length\<close>, \<open>too_short\<close>, \<open>common_password\<close>, \<open>common_word\<close>, \<open>first_name\<close>,
  \<open>last_name\<close>, \<open>uses_name\<close>, \<open>too_many_repeats\<close> and \<open>bad_password\<close>.

  A Python string is modelled as a \<open>string\<close> in which every \<open>char\<close> stands for one
  code point (the code points 0 to 255), so that \<open>length\<close> is what \<open>str.len()\<close> counts.
  The character tables below (\<open>\w\<close>, \<open>str.lower()\<close>, the dot of a pattern) are those of
  Python 3 on that range. Rows are those in which both columns hold a string.
\<close>

subsection \<open>Characters\<close>

definition newline :: char where
  "newline = CHR 0x0A"

definition dot :: char where
  "dot = CHR ''.''"

text \<open>\<open>\w\<close> of a \<open>str\<close> pattern: an alphanumeric character or the underscore.\<close>

definition is_word :: "char \<Rightarrow> bool" where
  "is_word c =
     (let n = (of_char c :: nat)
      in (48 \<le> n \<and> n \<le> 57) \<or> (65 \<le> n \<and> n \<le> 90) \<or> n = 95 \<or> (97 \<le> n \<and> n \<le> 122)
         \<or> n = 170 \<or> n = 178 \<or> n = 179 \<or> n = 181 \<or> n = 185 \<or> n = 186
         \<or> (188 \<le> n \<and> n \<le> 190) \<or> (192 \<le> n \<and> n \<le> 214)
         \<or> (216 \<le> n \<and> n \<le> 246) \<or> (248 \<le> n \<and> n \<le> 255))"

text \<open>\<open>.\<close> of a pattern compiled without flags: any character except the newline.\<close>

definition is_any :: "char \<Rightarrow> bool" where
  "is_any c = (c \<noteq> newline)"

text \<open>\<open>str.lower()\<close>, one character at a time.\<close>

definition lower_char :: "char \<Rightarrow> char" where
  "lower_char c =
     (let n = (of_char c :: nat)
      in if (65 \<le> n \<and> n \<le> 90) \<or> (192 \<le> n \<and> n \<le> 214) \<or> (216 \<le> n \<and> n \<le> 222)
         then char_of (n + 32) else c)"

definition str_lower :: "string \<Rightarrow> string" where
  "str_lower s = map lower_char s"

definition str_len :: "string \<Rightarrow> nat" where
  "str_len s = length s"

text \<open>\<open>Series.isin(values)\<close>, for one element of the series.\<close>

definition isin :: "string \<Rightarrow> string list \<Rightarrow> bool" where
  "isin x values = (x \<in> set values)"

subsection \<open>The three patterns\<close>

text \<open>
  \<open>str.extract(r'^(\w+)\.')\<close>: the pattern is tried at the start of the string only.
  The group takes the longest run of word characters (a shorter one would be followed
  by a word character, never by the dot) and the next character must be a dot. No
  match gives NaN, here \<open>None\<close>.
\<close>

definition extract_first_name :: "string \<Rightarrow> string option" where
  "extract_first_name s =
     (let w = takeWhile is_word s
      in case dropWhile is_word s of
           [] \<Rightarrow> None
         | c # _ \<Rightarrow> if w \<noteq> [] \<and> c = dot then Some w else None)"

text \<open>
  \<open>str.extract(r'\.(\w+$)')\<close>: the search tries every position from the left. At a
  dot, the group takes the longest run of word characters, which must be non-empty and
  must end where \<open>$\<close> matches: at the end of the string or before a newline that is
  its last character.
\<close>

fun extract_last_name :: "string \<Rightarrow> string option" where
  "extract_last_name [] = None"
| "extract_last_name (c # cs) =
     (let w = takeWhile is_word cs; rest = dropWhile is_word cs
      in if c = dot \<and> w \<noteq> [] \<and> (rest = [] \<or> rest = [newline]) then Some w
         else extract_last_name cs)"

text \<open>
  \<open>str.contains(r'(.)\1{3,}')\<close>: the search tries every position from the left. The
  group takes one character that is not a newline, and at least three copies of that
  character must follow it.
\<close>

fun contains_repeats :: "string \<Rightarrow> bool" where
  "contains_repeats [] = False"
| "contains_repeats (c # cs) =
     ((is_any c \<and> 3 \<le> length (takeWhile (\<lambda>x. x = c) cs)) \<or> contains_repeats cs)"

subsection \<open>The table and the cells\<close>

record users_row =
  user_name :: string
  password :: string
  length_col :: nat
  too_short :: bool
  common_password :: bool
  common_word :: bool
  first_name :: "string option"
  last_name :: "string option"
  uses_name :: bool
  too_many_repeats :: bool
  bad_password :: bool

text \<open>
  A row as \<open>read_csv\<close> leaves it. The columns that the cells assign do not exist
  yet; they hold placeholders here, which no cell reads before it has assigned them.
\<close>

definition csv_row :: "string \<Rightarrow> string \<Rightarrow> users_row" where
  "csv_row un pw =
     \<lparr>user_name = un, password = pw, length_col = 0, too_short = False,
      common_password = False, common_word = False, first_name = None, last_name = None,
      uses_name = False, too_many_repeats = False, bad_password = False\<rparr>"

text \<open>Cell 3: \<open>users['length'] = users['password'].str.len()\<close>, then
  \<open>users['too_short'] = users['length'] < 8\<close>.\<close>

definition flag_too_short :: "users_row \<Rightarrow> users_row" where
  "flag_too_short r =
     (let r1 = r\<lparr>length_col := str_len (password r)\<rparr>
      in r1\<lparr>too_short := (length_col r1 < 8)\<rparr>)"

text \<open>Cell 7: \<open>users['common_password'] = users['password'].isin(common_passwords)\<close>.\<close>

definition flag_common_password :: "string list \<Rightarrow> users_row \<Rightarrow> users_row" where
  "flag_common_password common_passwords r =
     r\<lparr>common_password := isin (password r) common_passwords\<rparr>"

text \<open>Cell 9: \<open>users['common_word'] = users['password'].str.lower().isin(words)\<close>.\<close>

definition flag_common_word :: "string list \<Rightarrow> users_row \<Rightarrow> users_row" where
  "flag_common_word words r =
     r\<lparr>common_word := isin (str_lower (password r)) words\<rparr>"

text \<open>Cell 11: the two extractions, then the two criteria. A comparison with NaN is
  false, so a missing name matches no password.\<close>

definition flag_uses_name :: "users_row \<Rightarrow> users_row" where
  "flag_uses_name r =
     (let r1 = r\<lparr>first_name := extract_first_name (user_name r)\<rparr>;
          r2 = r1\<lparr>last_name := extract_last_name (user_name r1)\<rparr>;
          criterion1 = (Some (str_lower (password r2)) = first_name r2);
          criterion2 = (Some (str_lower (password r2)) = last_name r2)
      in r2\<lparr>uses_name := (criterion1 \<or> criterion2)\<rparr>)"

text \<open>Cell 13: \<open>users['too_many_repeats'] = users['password'].str.contains(r'(.)\1{3,}')\<close>.\<close>

definition flag_too_many_repeats :: "users_row \<Rightarrow> users_row" where
  "flag_too_many_repeats r = r\<lparr>too_many_repeats := contains_repeats (password r)\<rparr>"

text \<open>Cell 15: the five columns, each compared with \<open>True\<close>, joined with \<open>|\<close>.\<close>

definition flag_bad_password :: "users_row \<Rightarrow> users_row" where
  "flag_bad_password r =
     r\<lparr>bad_password :=
          ((too_short r = True) \<or> (common_password r = True) \<or> (common_word r = True)
           \<or> (uses_name r = True) \<or> (too_many_repeats r = True))\<rparr>"

text \<open>One row through all the cells, in the notebook's order.\<close>

definition evaluate :: "string list \<Rightarrow> string list \<Rightarrow> users_row \<Rightarrow> users_row" where
  "evaluate common_passwords words r =
     flag_bad_password (flag_too_many_repeats (flag_uses_name
       (flag_common_word words (flag_common_password common_passwords (flag_too_short r)))))"

text \<open>The notebook: every cell is one vectorised statement over the whole table, so
  the table is passed from cell to cell and each cell rewrites every row.\<close>

definition notebook :: "string list \<Rightarrow> string list \<Rightarrow> users_row list \<Rightarrow> users_row list" where
  "notebook common_passwords words users =
     (let users1 = map flag_too_short users;
          users2 = map (flag_common_password common_passwords) users1;
          users3 = map (flag_common_word words) users2;
          users4 = map flag_uses_name users3;
          users5 = map flag_too_many_repeats users4
      in map flag_bad_password users5)"

section \<open>Properties\<close>

subsection \<open>What each cell leaves in a row\<close>

lemmas cell_defs = evaluate_def flag_too_short_def flag_common_password_def flag_common_word_def
  flag_uses_name_def flag_too_many_repeats_def flag_bad_password_def Let_def str_len_def isin_def

lemma evaluate_user_name: "user_name (evaluate cps ws r) = user_name r"
  by (simp add: cell_defs)

lemma evaluate_password: "password (evaluate cps ws r) = password r"
  by (simp add: cell_defs)

lemma evaluate_length_col: "length_col (evaluate cps ws r) = length (password r)"
  by (simp add: cell_defs)

lemma evaluate_too_short: "too_short (evaluate cps ws r) = (length (password r) < 8)"
  by (simp add: cell_defs)

lemma evaluate_common_password: "common_password (evaluate cps ws r) = (password r \<in> set cps)"
  by (simp add: cell_defs)

lemma evaluate_common_word: "common_word (evaluate cps ws r) = (str_lower (password r) \<in> set ws)"
  by (simp add: cell_defs)

lemma evaluate_first_name: "first_name (evaluate cps ws r) = extract_first_name (user_name r)"
  by (simp add: cell_defs)

lemma evaluate_last_name: "last_name (evaluate cps ws r) = extract_last_name (user_name r)"
  by (simp add: cell_defs)

lemma evaluate_uses_name:
  "uses_name (evaluate cps ws r) =
     (Some (str_lower (password r)) = extract_first_name (user_name r)
      \<or> Some (str_lower (password r)) = extract_last_name (user_name r))"
  by (simp add: cell_defs)

lemma evaluate_too_many_repeats:
  "too_many_repeats (evaluate cps ws r) = contains_repeats (password r)"
  by (simp add: cell_defs)

lemma evaluate_bad_password:
  "bad_password (evaluate cps ws r) =
     (too_short (evaluate cps ws r) \<or> common_password (evaluate cps ws r)
      \<or> common_word (evaluate cps ws r) \<or> uses_name (evaluate cps ws r)
      \<or> too_many_repeats (evaluate cps ws r))"
  by (simp add: cell_defs)

lemma notebook_rowwise: "notebook cps ws users = map (evaluate cps ws) users"
  by (simp add: notebook_def evaluate_def Let_def)

lemma evaluate_csv_row:
  "evaluate cps ws r = evaluate cps ws (csv_row (user_name r) (password r))"
  by (simp add: cell_defs csv_row_def)

lemma evaluate_idem: "evaluate cps ws (evaluate cps ws r) = evaluate cps ws r"
  by (simp add: cell_defs)

lemma not_word_dot: "\<not> is_word dot"
  by (simp add: is_word_def dot_def)

lemma not_word_newline: "\<not> is_word newline"
  by (simp add: is_word_def newline_def)

lemma lower_char_dot: "lower_char dot = dot"
  by (simp add: lower_char_def dot_def)

lemma dot_str_lower: "dot \<in> set s \<Longrightarrow> dot \<in> set (str_lower s)"
  unfolding str_lower_def using lower_char_dot by (metis image_eqI set_map)

lemma extract_first_name_no_dot: "dot \<notin> set s \<Longrightarrow> extract_first_name s = None"
  by (auto simp: extract_first_name_def Let_def split: list.splits dest: set_dropWhileD
      intro: set_dropWhileD[of _ is_word s])

subsection \<open>The two name patterns\<close>

lemma extract_first_name_word:
  "extract_first_name s = Some w \<Longrightarrow> w \<noteq> [] \<and> (\<forall>c\<in>set w. is_word c)"
  by (auto simp: extract_first_name_def Let_def split: list.splits if_splits dest: set_takeWhileD)

lemma extract_last_name_no_dot: "dot \<notin> set s \<Longrightarrow> extract_last_name s = None"
  by (induction s) (auto simp: Let_def)

lemma extract_last_name_word:
  "extract_last_name s = Some w \<Longrightarrow> w \<noteq> [] \<and> (\<forall>c\<in>set w. is_word c)"
  by (induction s) (auto simp: Let_def split: if_splits dest: set_takeWhileD)

lemma extract_first_name_prefix:
  assumes "g \<noteq> []" and "\<forall>c\<in>set g. is_word c"
  shows "extract_first_name (g @ dot # rest) = Some g"
proof -
  have t: "takeWhile is_word (g @ dot # rest) = g"
    using assms(2) by (simp add: takeWhile_append2 not_word_dot)
  have d: "dropWhile is_word (g @ dot # rest) = dot # rest"
    using assms(2) by (simp add: dropWhile_append2 not_word_dot)
  show ?thesis
    using assms(1) by (simp add: extract_first_name_def t d)
qed

lemma dropWhile_word_dot_long:
  assumes "f \<noteq> []"
  shows "2 \<le> length (dropWhile is_word (pre @ dot # f))"
proof -
  obtain a f' where f: "f = a # f'" using assms by (cases f) auto
  have "dropWhile is_word (pre @ dot # f) = dot # f
        \<or> dropWhile is_word (pre @ dot # f) = dropWhile is_word pre @ dot # f"
    by (simp add: dropWhile_append not_word_dot)
  then show ?thesis using f by auto
qed

lemma extract_last_name_suffix:
  assumes "f \<noteq> []" and "\<forall>c\<in>set f. is_word c"
  shows "extract_last_name (pre @ dot # f) = Some f"
proof (induction pre)
  case Nil
  have t: "takeWhile is_word f = f" and d: "dropWhile is_word f = []"
    using assms(2) by simp_all
  show ?case using assms(1) by (simp add: Let_def t d)
next
  case (Cons c pre)
  define rest where "rest = dropWhile is_word (pre @ dot # f)"
  have "2 \<le> length rest"
    unfolding rest_def using assms(1) by (rule dropWhile_word_dot_long)
  then have "rest \<noteq> []" and "rest \<noteq> [newline]"
    by auto
  then show ?case using Cons.IH by (simp add: Let_def rest_def not_word_dot)
qed

lemma takeWhile_eq_replicate:
  "takeWhile (\<lambda>x. x = c) cs = replicate (length (takeWhile (\<lambda>x. x = c) cs)) c"
  by (induction cs) auto

subsection \<open>The repetition pattern\<close>

lemma run_of_three:
  "(3 \<le> length (takeWhile (\<lambda>x. x = c) cs)) = (\<exists>post. cs = replicate 3 c @ post)"
proof
  assume h: "3 \<le> length (takeWhile (\<lambda>x. x = c) cs)"
  define n where "n = length (takeWhile (\<lambda>x. x = c) cs)"
  have n3: "n = 3 + (n - 3)" using h unfolding n_def by arith
  have "cs = takeWhile (\<lambda>x. x = c) cs @ dropWhile (\<lambda>x. x = c) cs"
    by (rule takeWhile_dropWhile_id [symmetric])
  moreover have "takeWhile (\<lambda>x. x = c) cs = replicate n c"
    unfolding n_def by (rule takeWhile_eq_replicate)
  moreover have "replicate n c = replicate 3 c @ replicate (n - 3) c"
    using n3 replicate_add [of 3 "n - 3" c] by (simp only:)
  ultimately have "cs = replicate 3 c @ (replicate (n - 3) c @ dropWhile (\<lambda>x. x = c) cs)"
    by (simp only: append_assoc)
  then show "\<exists>post. cs = replicate 3 c @ post" ..
next
  assume "\<exists>post. cs = replicate 3 c @ post"
  then obtain post where "cs = c # c # c # post"
    by (auto simp: numeral_3_eq_3)
  then show "3 \<le> length (takeWhile (\<lambda>x. x = c) cs)"
    by simp
qed

lemma replicate_4: "replicate 4 c = c # replicate 3 c"
  by (simp add: numeral_Bit0 numeral_3_eq_3)

lemma contains_repeats_iff:
  "contains_repeats s = (\<exists>pre c post. c \<noteq> newline \<and> s = pre @ replicate 4 c @ post)"
proof (induction s)
  case Nil
  then show ?case by (simp add: replicate_4)
next
  case (Cons a s)
  show ?case
  proof
    assume "contains_repeats (a # s)"
    then consider (here) "a \<noteq> newline" "3 \<le> length (takeWhile (\<lambda>x. x = a) s)"
      | (later) "contains_repeats s"
      by (auto simp: is_any_def)
    then show "\<exists>pre c post. c \<noteq> newline \<and> a # s = pre @ replicate 4 c @ post"
    proof cases
      case here
      then obtain post where "s = replicate 3 a @ post"
        using run_of_three [of a s] by blast
      then have "a # s = [] @ replicate 4 a @ post"
        by (simp only: replicate_4 append_Cons append_Nil)
      with here(1) show ?thesis by blast
    next
      case later
      then obtain pre c post where "c \<noteq> newline" "s = pre @ replicate 4 c @ post"
        using Cons.IH by blast
      then have "c \<noteq> newline \<and> a # s = (a # pre) @ replicate 4 c @ post"
        by (simp only: append_Cons simp_thms)
      then show ?thesis by blast
    qed
  next
    assume "\<exists>pre c post. c \<noteq> newline \<and> a # s = pre @ replicate 4 c @ post"
    then obtain pre c post where c: "c \<noteq> newline" and e: "a # s = pre @ replicate 4 c @ post"
      by blast
    show "contains_repeats (a # s)"
    proof (cases pre)
      case Nil
      then have "a # s = c # (replicate 3 c @ post)"
        using e by (simp only: replicate_4 append_Cons append_Nil)
      then have ac: "a = c" and "s = replicate 3 c @ post" by simp_all
      then have "3 \<le> length (takeWhile (\<lambda>x. x = a) s)"
        using run_of_three [of a s] by blast
      then show ?thesis using c ac by (simp add: is_any_def)
    next
      case (Cons b pre')
      then have "a # s = b # (pre' @ replicate 4 c @ post)"
        using e by (simp only: append_Cons)
      then have "s = pre' @ replicate 4 c @ post" by simp
      then have "contains_repeats s" using c Cons.IH by blast
      then show ?thesis by simp
    qed
  qed
qed

lemma takeWhile_eq_stop:
  "c \<noteq> d \<Longrightarrow> takeWhile (\<lambda>x. x = c) (pre @ d # rest) = takeWhile (\<lambda>x. x = c) pre"
  by (induction pre) auto

lemma contains_repeats_newlines:
  "contains_repeats (replicate n newline @ post) = contains_repeats post"
  by (induction n) (simp_all add: is_any_def)

lemma contains_repeats_newline_sep:
  "contains_repeats (pre @ newline # post) = (contains_repeats pre \<or> contains_repeats post)"
proof (induction pre)
  case Nil
  then show ?case by (simp add: is_any_def)
next
  case (Cons a pre)
  show ?case
  proof (cases "a = newline")
    case True
    then show ?thesis using Cons.IH by (simp add: is_any_def)
  next
    case False
    then have "takeWhile (\<lambda>x. x = a) (pre @ newline # post) = takeWhile (\<lambda>x. x = a) pre"
      by (rule takeWhile_eq_stop)
    then show ?thesis using Cons.IH by auto
  qed
qed

lemma contains_repeats_newline_run:
  assumes "1 \<le> n"
  shows "contains_repeats (pre @ replicate n newline @ post)
         = (contains_repeats pre \<or> contains_repeats post)"
proof -
  obtain m where n: "n = Suc m" using assms by (cases n) auto
  have "contains_repeats (pre @ replicate n newline @ post)
        = contains_repeats (pre @ newline # (replicate m newline @ post))"
    by (simp add: n)
  also have "\<dots> = (contains_repeats pre \<or> contains_repeats (replicate m newline @ post))"
    by (rule contains_repeats_newline_sep)
  finally show ?thesis by (simp only: contains_repeats_newlines)
qed

lemma contains_repeats_run:
  assumes "4 \<le> n" and "c \<noteq> newline"
  shows "contains_repeats (pre @ replicate n c @ post)"
proof -
  have "n = 4 + (n - 4)" using assms(1) by arith
  then have "replicate n c = replicate 4 c @ replicate (n - 4) c"
    using replicate_add [of 4 "n - 4" c] by (simp only:)
  then have "pre @ replicate n c @ post = pre @ replicate 4 c @ (replicate (n - 4) c @ post)"
    by (simp only: append_assoc)
  with assms(2) show ?thesis
    unfolding contains_repeats_iff by blast
qed

lemma name_has_no_dot:
  assumes "dot \<in> set pw"
  shows "Some (str_lower pw) \<noteq> extract_first_name u"
    and "Some (str_lower pw) \<noteq> extract_last_name u"
proof -
  have d: "dot \<in> set (str_lower pw)" using assms by (rule dot_str_lower)
  show "Some (str_lower pw) \<noteq> extract_first_name u"
  proof
    assume "Some (str_lower pw) = extract_first_name u"
    then have "\<forall>c\<in>set (str_lower pw). is_word c"
      using extract_first_name_word [of u "str_lower pw"] by simp
    with d show False using not_word_dot by blast
  qed
  show "Some (str_lower pw) \<noteq> extract_last_name u"
  proof
    assume "Some (str_lower pw) = extract_last_name u"
    then have "\<forall>c\<in>set (str_lower pw). is_word c"
      using extract_last_name_word [of u "str_lower pw"] by simp
    with d show False using not_word_dot by blast
  qed
qed

lemma own_identifier_not_name:
  "Some (str_lower u) \<noteq> extract_first_name u \<and> Some (str_lower u) \<noteq> extract_last_name u"
proof (cases "dot \<in> set u")
  case True
  then show ?thesis using name_has_no_dot [of u u] by blast
next
  case False
  then show ?thesis
    by (simp add: extract_first_name_no_dot extract_last_name_no_dot)
qed

section \<open>The claims\<close>

text \<open>
  C1, as the notebook has it. The \<open>common_password\<close> column is an exact, case-sensitive
  membership test: it is true iff the password itself, as written, is an entry of the
  list of common passwords; neither the password nor the list is lowercased in cell 7
  (the dictionary rule of cell 9 and the name rule of cell 11 lowercase the password,
  cell 7 does not). Hence a password whose lowercasing is in the list is flagged
  whenever it is already lowercase.
\<close>

theorem common_password_exact_match:
  "common_password (evaluate cps ws r) = (password r \<in> set cps)
   \<and> (str_lower (password r) \<in> set cps \<longrightarrow> str_lower (password r) = password r
        \<longrightarrow> common_password (evaluate cps ws r))"
  by (auto simp: evaluate_common_password)

text \<open>
  The theorem at the password \<open>master\<close>, which is lowercase and in the list.
\<close>

theorem common_password_exact_match_witness:
  "str_lower (password (csv_row ''evelyn.gay'' ''master'')) \<in> set [''master'']
   \<and> str_lower (password (csv_row ''evelyn.gay'' ''master'')) = password (csv_row ''evelyn.gay'' ''master'')
   \<and> common_password (evaluate [''master''] [] (csv_row ''evelyn.gay'' ''master''))"
proof -
  have h1: "str_lower (password (csv_row ''evelyn.gay'' ''master'')) \<in> set [''master'']"
    by code_simp
  have h2: "str_lower (password (csv_row ''evelyn.gay'' ''master''))
            = password (csv_row ''evelyn.gay'' ''master'')"
    by code_simp
  show ?thesis
    using h1 h2 common_password_exact_match [of "[''master'']" "[]" "csv_row ''evelyn.gay'' ''master''"]
    by blast
qed

text \<open>
  C1 as stated fails: \<open>MASTER\<close> lowercases to the listed \<open>master\<close>, and the column is
  false for it.
\<close>

theorem common_password_case_counterexample:
  "str_lower ''MASTER'' \<in> set [''master'']
   \<and> \<not> common_password (evaluate [''master''] [] (csv_row ''evelyn.gay'' ''MASTER''))"
  by code_simp

text \<open>
  C2, as the notebook has it. \<open>first_name\<close> is the run of word characters at the start
  of the identifier, when that run is non-empty and a dot follows it (whatever comes
  after the dot). \<open>last_name\<close> is the run of word characters at the end of the
  identifier, when that run is non-empty and a dot precedes it (whatever comes before
  the dot): it is the text after the last dot, not after the first. Neither token ever
  contains a dot. For an identifier \<open>given.family\<close> with one dot and two word runs,
  this is the split into \<open>given\<close> and \<open>family\<close>.
\<close>

theorem name_tokens_are_word_runs:
  "(g \<noteq> [] \<and> (\<forall>c\<in>set g. is_word c) \<and> user_name r = g @ dot # rest
      \<longrightarrow> first_name (evaluate cps ws r) = Some g)
   \<and> (f \<noteq> [] \<and> (\<forall>c\<in>set f. is_word c) \<and> user_name r = pre @ dot # f
      \<longrightarrow> last_name (evaluate cps ws r) = Some f)
   \<and> (first_name (evaluate cps ws r) = Some w \<or> last_name (evaluate cps ws r) = Some w
      \<longrightarrow> dot \<notin> set w)"
proof -
  have a: "g \<noteq> [] \<and> (\<forall>c\<in>set g. is_word c) \<and> user_name r = g @ dot # rest
      \<longrightarrow> first_name (evaluate cps ws r) = Some g"
    by (simp add: evaluate_first_name extract_first_name_prefix)
  have b: "f \<noteq> [] \<and> (\<forall>c\<in>set f. is_word c) \<and> user_name r = pre @ dot # f
      \<longrightarrow> last_name (evaluate cps ws r) = Some f"
    by (simp add: evaluate_last_name extract_last_name_suffix)
  have c: "first_name (evaluate cps ws r) = Some w \<or> last_name (evaluate cps ws r) = Some w
      \<longrightarrow> dot \<notin> set w"
    unfolding evaluate_first_name evaluate_last_name
    using extract_first_name_word [of "user_name r" w] extract_last_name_word [of "user_name r" w]
      not_word_dot by blast
  from a b c show ?thesis by blast
qed

text \<open>
  The theorem at the identifier \<open>a.b.c\<close>: the tokens are \<open>a\<close> and \<open>c\<close>.
\<close>

theorem name_tokens_are_word_runs_witness:
  "first_name (evaluate [] [] (csv_row ''a.b.c'' ''secret'')) = Some ''a''
   \<and> last_name (evaluate [] [] (csv_row ''a.b.c'' ''secret'')) = Some ''c''
   \<and> dot \<notin> set ''c''"
proof -
  have g: "''a'' \<noteq> [] \<and> (\<forall>c\<in>set ''a''. is_word c)
           \<and> user_name (csv_row ''a.b.c'' ''secret'') = ''a'' @ dot # ''b.c''"
    by code_simp
  have f: "''c'' \<noteq> [] \<and> (\<forall>c\<in>set ''c''. is_word c)
           \<and> user_name (csv_row ''a.b.c'' ''secret'') = ''a.b'' @ dot # ''c''"
    by code_simp
  show ?thesis
    using g f name_tokens_are_word_runs [of "''a''" "csv_row ''a.b.c'' ''secret''" "''b.c''"
        "[]" "[]" "''c''" "''a.b''" "''c''"]
    by blast
qed

text \<open>
  C2 as stated fails: for \<open>a.b.c\<close> the family token is \<open>c\<close>, not the suffix \<open>b.c\<close>
  after the first dot.
\<close>

theorem family_after_first_dot_counterexample:
  "dot \<in> set ''a.b.c''
   \<and> last_name (evaluate [] [] (csv_row ''a.b.c'' ''secret'')) = Some ''c''
   \<and> last_name (evaluate [] [] (csv_row ''a.b.c'' ''secret'')) \<noteq> Some ''b.c''"
  by code_simp

text \<open>
  What cell 13 computes: \<open>too_many_repeats\<close> is true iff the password contains four
  consecutive copies of one character that is not the newline. So \<open>aaaa\<close> is
  flagged, and \<open>aaa\<close>, \<open>aabaa\<close> and the empty password are not.
\<close>

theorem too_many_repeats_iff_run_of_four:
  "too_many_repeats (evaluate cps ws r) =
     (\<exists>pre c post. c \<noteq> newline \<and> password r = pre @ replicate 4 c @ post)
   \<and> contains_repeats ''aaaa'' \<and> \<not> contains_repeats ''aaa''
   \<and> \<not> contains_repeats ''aabaa'' \<and> \<not> contains_repeats ''''"
proof -
  have "too_many_repeats (evaluate cps ws r) =
     (\<exists>pre c post. c \<noteq> newline \<and> password r = pre @ replicate 4 c @ post)"
    unfolding evaluate_too_many_repeats by (rule contains_repeats_iff)
  moreover have "contains_repeats ''aaaa''" by code_simp
  moreover have "\<not> contains_repeats ''aaa''" by code_simp
  moreover have "\<not> contains_repeats ''aabaa''" by code_simp
  moreover have "\<not> contains_repeats ''''" by simp
  ultimately show ?thesis by blast
qed

text \<open>
  C3. The cell is commented \<open>Flagging the users with passwords with >= 4 repeats\<close>,
  and the notebook's text says it flags all passwords that contain 4 or more repeated
  characters: a single run of four identical characters is to set the flag. A password
  of four newlines is one such run, and the column is false for it, because the dot of
  the pattern is compiled without \<open>DOTALL\<close> and does not match a newline.
\<close>

theorem four_newlines_not_flagged:
  "[newline, newline, newline, newline] = [] @ replicate 4 newline @ []
   \<and> \<not> too_many_repeats
        (evaluate [] [] (csv_row ''evelyn.gay'' [newline, newline, newline, newline]))"
  by code_simp

text \<open>
  C4. \<open>bad_password\<close> is the disjunction of the five columns \<open>too_short\<close>,
  \<open>common_password\<close>, \<open>common_word\<close>, \<open>uses_name\<close> and \<open>too_many_repeats\<close>, and each
  of the five is computed from the row's own password and identifier, whatever the
  other four are.
\<close>

theorem bad_password_is_or_of_five:
  "bad_password (evaluate cps ws r) =
     (too_short (evaluate cps ws r) \<or> common_password (evaluate cps ws r)
      \<or> common_word (evaluate cps ws r) \<or> uses_name (evaluate cps ws r)
      \<or> too_many_repeats (evaluate cps ws r))
   \<and> too_short (evaluate cps ws r) = (str_len (password r) < 8)
   \<and> common_password (evaluate cps ws r) = isin (password r) cps
   \<and> common_word (evaluate cps ws r) = isin (str_lower (password r)) ws
   \<and> uses_name (evaluate cps ws r) =
       (Some (str_lower (password r)) = extract_first_name (user_name r)
        \<or> Some (str_lower (password r)) = extract_last_name (user_name r))
   \<and> too_many_repeats (evaluate cps ws r) = contains_repeats (password r)"
  by (simp add: evaluate_bad_password evaluate_too_short evaluate_common_password
      evaluate_common_word evaluate_uses_name evaluate_too_many_repeats str_len_def isin_def)

text \<open>
  C5. \<open>too_short\<close> is true iff the password has fewer than 8 characters; a password of
  exactly 8 characters is not flagged.
\<close>

theorem too_short_strict_boundary:
  "too_short (evaluate cps ws r) = (length (password r) < 8)
   \<and> (length (password r) = 8 \<longrightarrow> \<not> too_short (evaluate cps ws r))"
  by (simp add: evaluate_too_short)

text \<open>
  The theorem at the boundary: a password of 8 characters and one of 7.
\<close>

theorem too_short_strict_boundary_witness:
  "length (password (csv_row ''brant.zimmerman'' ''12345678'')) = 8
   \<and> \<not> too_short (evaluate [] [] (csv_row ''brant.zimmerman'' ''12345678''))
   \<and> too_short (evaluate [] [] (csv_row ''brant.zimmerman'' ''1234567''))"
proof -
  have h: "length (password (csv_row ''brant.zimmerman'' ''12345678'')) = 8"
    by code_simp
  have s: "length (password (csv_row ''brant.zimmerman'' ''1234567'')) < 8"
    by code_simp
  show ?thesis
    using h s too_short_strict_boundary [of "[]" "[]" "csv_row ''brant.zimmerman'' ''12345678''"]
      too_short_strict_boundary [of "[]" "[]" "csv_row ''brant.zimmerman'' ''1234567''"]
    by blast
qed

text \<open>
  C6. For an identifier without a dot both name tokens are missing and \<open>uses_name\<close>
  is false, whatever the password; evaluation returns the row all the same. A token is
  never the empty string, so no empty token can match a password.
\<close>

theorem no_dot_no_name_match:
  "(dot \<notin> set (user_name r)
      \<longrightarrow> first_name (evaluate cps ws r) = None \<and> last_name (evaluate cps ws r) = None
          \<and> \<not> uses_name (evaluate cps ws r))
   \<and> first_name (evaluate cps ws r) \<noteq> Some [] \<and> last_name (evaluate cps ws r) \<noteq> Some []"
proof -
  have "dot \<notin> set (user_name r)
      \<longrightarrow> first_name (evaluate cps ws r) = None \<and> last_name (evaluate cps ws r) = None
          \<and> \<not> uses_name (evaluate cps ws r)"
    by (simp add: evaluate_first_name evaluate_last_name evaluate_uses_name
        extract_first_name_no_dot extract_last_name_no_dot)
  moreover have "first_name (evaluate cps ws r) \<noteq> Some []"
    unfolding evaluate_first_name using extract_first_name_word [of "user_name r" "[]"] by blast
  moreover have "last_name (evaluate cps ws r) \<noteq> Some []"
    unfolding evaluate_last_name using extract_last_name_word [of "user_name r" "[]"] by blast
  ultimately show ?thesis by blast
qed

text \<open>
  The theorem at the identifier \<open>admin\<close> with the password \<open>admin\<close>.
\<close>

theorem no_dot_no_name_match_witness:
  "dot \<notin> set (user_name (csv_row ''admin'' ''admin''))
   \<and> first_name (evaluate [] [] (csv_row ''admin'' ''admin'')) = None
   \<and> last_name (evaluate [] [] (csv_row ''admin'' ''admin'')) = None
   \<and> \<not> uses_name (evaluate [] [] (csv_row ''admin'' ''admin''))"
proof -
  have h: "dot \<notin> set (user_name (csv_row ''admin'' ''admin''))"
    by code_simp
  show ?thesis
    using h no_dot_no_name_match [of "csv_row ''admin'' ''admin''" "[]" "[]"] by blast
qed

text \<open>
  C8. The result is a function of the input table and the two lists alone. Running
  the notebook again on its own output changes nothing; the output has the input's
  identifiers and passwords in the input's order; the table passed cell by cell is the
  table of the rows evaluated one by one; and a row's result depends on nothing but its
  identifier, its password and the two lists.
\<close>

theorem notebook_deterministic_in_order:
  "notebook cps ws (notebook cps ws users) = notebook cps ws users
   \<and> map user_name (notebook cps ws users) = map user_name users
   \<and> map password (notebook cps ws users) = map password users
   \<and> notebook cps ws users = map (evaluate cps ws) users
   \<and> evaluate cps ws r = evaluate cps ws (csv_row (user_name r) (password r))"
proof -
  have "notebook cps ws (notebook cps ws users) = notebook cps ws users"
    by (simp add: notebook_rowwise evaluate_idem)
  moreover have "map user_name (notebook cps ws users) = map user_name users"
    by (simp add: notebook_rowwise evaluate_user_name)
  moreover have "map password (notebook cps ws users) = map password users"
    by (simp add: notebook_rowwise evaluate_password)
  ultimately show ?thesis
    using notebook_rowwise [of cps ws users] evaluate_csv_row [of cps ws r] by blast
qed

text \<open>
  C9. A password equal to the whole identifier is never flagged by \<open>uses_name\<close>: the
  column is true only when the lowercased password equals the first-name token or the
  last-name token.
\<close>

theorem full_identifier_not_flagged:
  "(password r = user_name r \<longrightarrow> \<not> uses_name (evaluate cps ws r))
   \<and> uses_name (evaluate cps ws r) =
       (first_name (evaluate cps ws r) = Some (str_lower (password r))
        \<or> last_name (evaluate cps ws r) = Some (str_lower (password r)))"
proof -
  have "password r = user_name r \<longrightarrow> \<not> uses_name (evaluate cps ws r)"
    using own_identifier_not_name [of "user_name r"] by (simp add: evaluate_uses_name)
  moreover have "uses_name (evaluate cps ws r) =
       (first_name (evaluate cps ws r) = Some (str_lower (password r))
        \<or> last_name (evaluate cps ws r) = Some (str_lower (password r)))"
    unfolding evaluate_uses_name evaluate_first_name evaluate_last_name by auto
  ultimately show ?thesis by blast
qed

text \<open>
  The theorem at \<open>vance.jennings\<close>, used as identifier and as password.
\<close>

theorem full_identifier_not_flagged_witness:
  "password (csv_row ''vance.jennings'' ''vance.jennings'')
     = user_name (csv_row ''vance.jennings'' ''vance.jennings'')
   \<and> \<not> uses_name (evaluate [] [] (csv_row ''vance.jennings'' ''vance.jennings''))"
proof -
  have h: "password (csv_row ''vance.jennings'' ''vance.jennings'')
     = user_name (csv_row ''vance.jennings'' ''vance.jennings'')"
    by (simp add: csv_row_def)
  show ?thesis
    using h full_identifier_not_flagged [of "csv_row ''vance.jennings'' ''vance.jennings''" "[]" "[]"]
    by blast
qed

text \<open>
  C10. A run of four or more newlines never sets the flag: a
  password made of a part, such a run and another part is flagged iff one of the two
  parts is flagged by itself. Every other character repeated four or more times in a
  row sets the flag, wherever the run is.
\<close>

theorem newline_runs_do_not_count:
  "(4 \<le> n \<and> password r = pre @ replicate n newline @ post
      \<longrightarrow> too_many_repeats (evaluate cps ws r) = (contains_repeats pre \<or> contains_repeats post))
   \<and> (4 \<le> m \<and> c \<noteq> newline \<and> password r = pre' @ replicate m c @ post'
      \<longrightarrow> too_many_repeats (evaluate cps ws r))"
proof -
  have "4 \<le> n \<and> password r = pre @ replicate n newline @ post
      \<longrightarrow> too_many_repeats (evaluate cps ws r) = (contains_repeats pre \<or> contains_repeats post)"
    using contains_repeats_newline_run [of n pre post] by (simp add: evaluate_too_many_repeats)
  moreover have "4 \<le> m \<and> c \<noteq> newline \<and> password r = pre' @ replicate m c @ post'
      \<longrightarrow> too_many_repeats (evaluate cps ws r)"
    using contains_repeats_run [of m c pre' post'] by (simp add: evaluate_too_many_repeats)
  ultimately show ?thesis by blast
qed

text \<open>
  The theorem at \<open>ab\<close>, five newlines, \<open>cd\<close> (not flagged) and at \<open>ab\<close>, five \<open>z\<close>,
  \<open>cd\<close> (flagged).
\<close>

theorem newline_runs_do_not_count_witness:
  "\<not> too_many_repeats (evaluate [] [] (csv_row ''evelyn.gay'' (''ab'' @ replicate 5 newline @ ''cd'')))
   \<and> too_many_repeats (evaluate [] [] (csv_row ''evelyn.gay'' (''ab'' @ replicate 5 CHR ''z'' @ ''cd'')))"
proof -
  have n: "(4::nat) \<le> 5" by simp
  have p1: "password (csv_row ''evelyn.gay'' (''ab'' @ replicate 5 newline @ ''cd''))
            = ''ab'' @ replicate 5 newline @ ''cd''"
    by (simp add: csv_row_def)
  have p2: "password (csv_row ''evelyn.gay'' (''ab'' @ replicate 5 CHR ''z'' @ ''cd''))
            = ''ab'' @ replicate 5 CHR ''z'' @ ''cd''"
    by (simp add: csv_row_def)
  have z: "CHR ''z'' \<noteq> newline" by (simp add: newline_def)
  have q: "\<not> contains_repeats ''ab''" "\<not> contains_repeats ''cd''" by code_simp+
  show ?thesis
    using n p1 p2 z q
      newline_runs_do_not_count [of 5 "csv_row ''evelyn.gay'' (''ab'' @ replicate 5 newline @ ''cd'')"
        "''ab''" "''cd''" "[]" "[]"]
      newline_runs_do_not_count [of _ "csv_row ''evelyn.gay'' (''ab'' @ replicate 5 CHR ''z'' @ ''cd'')"
        _ _ "[]" "[]" 5 "CHR ''z''" "''ab''" "''cd''"]
    by blast
qed

end
